theory Spec2Isabelle
  imports Complex_Main
begin

section \<open>The regressor engine of nimsphysio.py\<close>

text \<open>
  A shallow embedding of \<^verbatim>\<open>NIMSPhysio.compute_regressors\<close>
  (src/nimsdata/nimsphysio.py, lines 162-346).

  Conventions.
  \<^item> numpy's float64 values are read as real numbers (exact arithmetic). Where numpy
    would produce \<^verbatim>\<open>nan\<close> or \<^verbatim>\<open>inf\<close> (a division by zero of numpy scalars, the
    standard deviation of an empty slice) it only warns and carries on, and so does the
    model: every loop state carries a flag that is \<open>True\<close> as long as every value
    computed so far is a real number. Exceptions are raised exactly where the source
    raises them, whatever the flag. A run that raises nothing but whose flag is
    \<open>False\<close> ends with the outcome \<open>NanOrInf\<close>: that outcome is not an exception of
    the program, it marks the runs whose values the model does not describe.
  \<^item> The module is Python 2 (\<^verbatim>\<open>basestring\<close>, \<^verbatim>\<open>file(...)\<close>, list-valued
    \<^verbatim>\<open>range\<close>), without \<^verbatim>\<open>from __future__ import division\<close>: \<^verbatim>\<open>/\<close> between
    two ints is floor division. \<^verbatim>\<open>tr\<close> is whatever the caller passed (the default is
    the int 2), so it is a \<open>pynum\<close>.
  \<^item> numpy arrays that the loops fill by index are functions from indices to values
    (cells outside the shape keep the initial 0 and are never read); one-dimensional
    arrays are lists.
  \<^item> \<^verbatim>\<open>scipy.signal.filtfilt(firwin(20, wn), [1], x)\<close> is a parameter \<open>filt\<close> of
    the model: \<open>filt resp_dt x\<close> is \<open>None\<close> when the library raises.
\<close>

subsection \<open>Numbers and errors\<close>

datatype pynum = PyInt int | PyFloat real

definition val :: "pynum \<Rightarrow> real" where
  "val x = (case x of PyInt i \<Rightarrow> of_int i | PyFloat r \<Rightarrow> r)"

text \<open>\<^verbatim>\<open>self.tr / nslc\<close> with \<^verbatim>\<open>nslc\<close> a Python int (\<^verbatim>\<open>ndarray.size\<close>). It is only
  evaluated inside \<^verbatim>\<open>for sl in range(nslc)\<close>, hence with \<open>0 < n\<close>.\<close>

definition py2_div :: "pynum \<Rightarrow> nat \<Rightarrow> real" where
  "py2_div x n = (case x of PyInt i \<Rightarrow> of_int (i div int n) | PyFloat r \<Rightarrow> r / real n)"

datatype error =
    NIMSPhysioError string
  | IndexError
  | ValueError
  | ZeroDivisionError
  | FilterError
  | NanOrInf

subsection \<open>numpy operations\<close>

text \<open>\<^verbatim>\<open>xs[i]\<close>: a negative index counts from the end, an index out of range raises.\<close>

definition getitem :: "'a list \<Rightarrow> int \<Rightarrow> error + 'a" where
  "getitem xs i =
     (if 0 \<le> i \<and> i < int (length xs) then Inr (xs ! nat i)
      else if i < 0 \<and> - int (length xs) \<le> i then Inr (xs ! nat (int (length xs) + i))
      else Inl IndexError)"

text \<open>\<^verbatim>\<open>np.arange(start, stop, step)\<close>: \<open>\<lceil>(stop - start) / step\<rceil>\<close> values (none when
  that is negative), the \<open>i\<close>-th being \<open>start + i * step\<close>.\<close>

definition arange :: "real \<Rightarrow> real \<Rightarrow> real \<Rightarrow> error + real list" where
  "arange start stop step =
     (if step = 0 then Inl ZeroDivisionError
      else Inr (map (\<lambda>i. start + real i * step) [0..<nat \<lceil>(stop - start) / step\<rceil>]))"

text \<open>\<^verbatim>\<open>np.round\<close> rounds a half to the even neighbour.\<close>

definition np_round :: "real \<Rightarrow> int" where
  "np_round x =
     (let f = \<lfloor>x\<rfloor>; d = x - of_int f
      in if d < 1 / 2 then f else if 1 / 2 < d then f + 1 else if even f then f else f + 1)"

definition np_diff :: "real list \<Rightarrow> real list" where
  "np_diff xs = map (\<lambda>i. xs ! Suc i - xs ! i) [0..<length xs - 1]"

definition mean :: "real list \<Rightarrow> real" where
  "mean xs = sum_list xs / real (length xs)"

definition np_std :: "real list \<Rightarrow> real" where
  "np_std xs = sqrt (mean (map (\<lambda>x. (x - mean xs)\<^sup>2) xs))"

text \<open>\<^verbatim>\<open>xs.argmin()\<close>: the first index of the minimum.\<close>

definition argmin :: "real list \<Rightarrow> error + nat" where
  "argmin xs =
     (case filter (\<lambda>i. xs ! i = Min (set xs)) [0..<length xs] of
        [] \<Rightarrow> Inl ValueError
      | i # _ \<Rightarrow> Inr i)"

text \<open>\<^verbatim>\<open>np.histogram(a, nb)\<close> on a non-empty array: \<open>nb\<close> bins of equal width between the
  minimum and the maximum (between \<open>min - 0.5\<close> and \<open>max + 0.5\<close> when they coincide), each
  closed on the left and open on the right, the last one closed on both sides. The result
  is the counts and the \<open>nb + 1\<close> edges.\<close>

definition bin_edges :: "real list \<Rightarrow> nat \<Rightarrow> real list" where
  "bin_edges a nb =
     (let mn = Min (set a); mx = Max (set a);
          lo = (if mn = mx then mn - 1 / 2 else mn);
          hi = (if mn = mx then mx + 1 / 2 else mx)
      in map (\<lambda>i. lo + real i * (hi - lo) / real nb) [0..<nb + 1])"

definition in_bin :: "real list \<Rightarrow> nat \<Rightarrow> nat \<Rightarrow> real \<Rightarrow> bool" where
  "in_bin edges nb i x =
     (edges ! i \<le> x \<and> (x < edges ! Suc i \<or> (Suc i = nb \<and> x = edges ! nb)))"

definition histogram :: "real list \<Rightarrow> nat \<Rightarrow> nat list \<times> real list" where
  "histogram a nb =
     (let edges = bin_edges a nb
      in (map (\<lambda>i. length (filter (in_bin edges nb i) a)) [0..<nb], edges))"

text \<open>\<^verbatim>\<open>np.convolve(a, v)\<close> (mode full); it raises on an empty argument.\<close>

definition convolve :: "real list \<Rightarrow> real list \<Rightarrow> error + real list" where
  "convolve a v =
     (if a = [] \<or> v = [] then Inl ValueError
      else Inr (map (\<lambda>k. \<Sum>j\<leftarrow>[0..<length a].
                            if j \<le> k \<and> k - j < length v then a ! j * v ! (k - j) else 0)
                    [0..<length a + length v - 1]))"

text \<open>\<^verbatim>\<open>(sl == self.slice_order).nonzero()[0][0]\<close>: the first position holding \<open>v\<close>;
  \<^verbatim>\<open>[0]\<close> on an empty index array raises IndexError.\<close>

definition first_index :: "int list \<Rightarrow> int \<Rightarrow> error + nat" where
  "first_index xs v =
     (case filter (\<lambda>i. xs ! i = v) [0..<length xs] of
        [] \<Rightarrow> Inl IndexError
      | i # _ \<Rightarrow> Inr i)"

text \<open>\<^verbatim>\<open>np.polyfit(x, y, 2)\<close> over \<open>n\<close> points, as the solution of the normal equations
  of the least-squares problem (Cramer's rule), highest power first, and
  \<^verbatim>\<open>np.polyval\<close>. The source only fits against \<^verbatim>\<open>x = np.arange(nframes)\<close> with
  \<open>3 \<le> nframes\<close>, where the determinant is positive (lemma \<open>gram_det_arange\<close>).\<close>

definition moment :: "nat \<Rightarrow> (nat \<Rightarrow> real) \<Rightarrow> (nat \<Rightarrow> real) \<Rightarrow> nat \<Rightarrow> real" where
  "moment n x y k = (\<Sum>i<n. x i ^ k * y i)"

definition det3 :: "real \<Rightarrow> real \<Rightarrow> real \<Rightarrow> real \<Rightarrow> real \<Rightarrow> real \<Rightarrow> real \<Rightarrow> real \<Rightarrow> real \<Rightarrow> real" where
  "det3 a b c d e f g h i = a * (e * i - f * h) - b * (d * i - f * g) + c * (d * h - e * g)"

definition gram_det :: "nat \<Rightarrow> (nat \<Rightarrow> real) \<Rightarrow> real" where
  "gram_det n x =
     (let s = moment n x (\<lambda>_. 1)
      in det3 (s 4) (s 3) (s 2) (s 3) (s 2) (s 1) (s 2) (s 1) (s 0))"

definition polyfit2 :: "nat \<Rightarrow> (nat \<Rightarrow> real) \<Rightarrow> (nat \<Rightarrow> real) \<Rightarrow> real \<times> real \<times> real" where
  "polyfit2 n x y =
     (let s = moment n x (\<lambda>_. 1); b = moment n x y; d = gram_det n x
      in (det3 (b 2) (s 3) (s 2) (b 1) (s 2) (s 1) (b 0) (s 1) (s 0) / d,
          det3 (s 4) (b 2) (s 2) (s 3) (b 1) (s 1) (s 2) (b 0) (s 0) / d,
          det3 (s 4) (s 3) (b 2) (s 3) (s 2) (b 1) (s 2) (s 1) (b 0) / d))"

definition polyval2 :: "real \<times> real \<times> real \<Rightarrow> real \<Rightarrow> real" where
  "polyval2 p x = (case p of (a, b, c) \<Rightarrow> (a * x + b) * x + c)"

subsection \<open>The object\<close>

type_synonym phase_tensor = "nat \<Rightarrow> nat \<Rightarrow> real \<times> real"
type_synonym hr_tensor = "nat \<Rightarrow> nat \<Rightarrow> real"
type_synonym reg_tensor = "nat \<Rightarrow> nat \<Rightarrow> nat \<Rightarrow> real"

text \<open>The fields \<^verbatim>\<open>compute_regressors\<close> reads or writes. \<open>phases P sl fr\<close> is the pair
  (cardiac, respiratory) of \<^verbatim>\<open>phases[sl, fr, :]\<close>; \<open>heart_rate\<close> is indexed [frame][slice],
  \<open>regressors\<close> [frame][column][slice]. \<open>scan_duration\<close> is set once, by
  \<^verbatim>\<open>__init__\<close> (line 98), to \<^verbatim>\<open>nframes * tr\<close>. \<open>log_out\<close> collects what goes to
  \<^verbatim>\<open>self.log.warning\<close> or, without a logger, to \<^verbatim>\<open>print\<close>.\<close>

record physio =
  tr :: pynum
  nframes :: int
  slice_order :: "int list"
  scan_duration :: real
  card_wave :: "real list"
  card_trig :: "real list"
  card_dt :: real
  resp_wave :: "real list"
  resp_dt :: real
  phases :: "phase_tensor option"
  heart_rate :: "hr_tensor option"
  regressors :: "reg_tensor option"
  log_out :: "string list"

subsection \<open>Loops\<close>

text \<open>A \<^verbatim>\<open>for\<close> loop whose body may raise: the loop stops at the first error and keeps
  the state the body left.\<close>

fun for_each :: "'i list \<Rightarrow> ('i \<Rightarrow> 'st \<Rightarrow> error option \<times> 'st) \<Rightarrow> 'st \<Rightarrow> error option \<times> 'st" where
  "for_each [] body st = (None, st)"
| "for_each (i # is) body st =
     (case body i st of
        (None, st') \<Rightarrow> for_each is body st'
      | (Some e, st') \<Rightarrow> (Some e, st'))"

subsection \<open>Timing (lines 236-238, 296-297)\<close>

definition slice_times_of :: "physio \<Rightarrow> nat \<Rightarrow> error + real list" where
  "slice_times_of s sl =
     (case first_index (slice_order s) (int sl) of
        Inl e \<Rightarrow> Inl e
      | Inr cur_slice_acq \<Rightarrow>
          arange (py2_div (tr s) (length (slice_order s)) * (real cur_slice_acq + 0.5))
                 (scan_duration s) (val (tr s)))"

subsection \<open>Phases (lines 231-263)\<close>

text \<open>The cardiac phase of lines 241-251 with its flag: the quotient is a real number
  unless \<open>t2 = t1\<close>.\<close>

definition phi_cardiac :: "real list \<Rightarrow> real \<Rightarrow> real \<Rightarrow> bool \<times> real" where
  "phi_cardiac trig t dflt =
     (let prev_trigs = filter (\<lambda>i. trig ! i < t) [0..<length trig];
          t1 = (if prev_trigs = [] then 0 else trig ! last prev_trigs);
          next_trigs = filter (\<lambda>i. t < trig ! i) [0..<length trig];
          t2 = (if next_trigs = [] then dflt else trig ! hd next_trigs)
      in (t2 - t1 \<noteq> 0, (t - t1) * 2 * pi / (t2 - t1)))"

text \<open>Lines 255-260. \<open>resp_dt\<close> is not 0 here: line 224 has raised otherwise.
  \<^verbatim>\<open>drdt[iphys]\<close> raises when \<open>respfilt\<close> has fewer than two samples, so
  \<open>respfilt.size\<close> is not 0 in the quotient.\<close>

definition phi_resp ::
  "real list \<Rightarrow> real \<Rightarrow> nat list \<Rightarrow> real list \<Rightarrow> real list \<Rightarrow> real list \<Rightarrow> real \<Rightarrow> error + real" where
  "phi_resp rw rdt Hb bins respfilt drdt t =
     (let iphys = min (max 0 (np_round (t / rdt))) (int (length drdt) - 1)
      in case getitem rw iphys of
           Inl e \<Rightarrow> Inl e
         | Inr amp \<Rightarrow>
            (case argmin (map (\<lambda>b. \<bar>amp - b\<bar>) bins) of
               Inl e \<Rightarrow> Inl e
             | Inr thisBin \<Rightarrow>
                (case getitem drdt iphys of
                   Inl e \<Rightarrow> Inl e
                 | Inr d \<Rightarrow>
                     Inr (pi * sgn d *
                          (real (sum_list (take thisBin Hb)) / real (length respfilt))))))"

definition phase_frame ::
  "physio \<Rightarrow> nat list \<Rightarrow> real list \<Rightarrow> real list \<Rightarrow> real list \<Rightarrow> nat \<Rightarrow> real list \<Rightarrow>
   nat \<Rightarrow> bool \<times> phase_tensor \<Rightarrow> error option \<times> bool \<times> phase_tensor" where
  "phase_frame s Hb bins respfilt drdt sl slice_times fr st =
     (case st of (ok, P) \<Rightarrow>
      (case getitem slice_times (int fr) of
         Inl e \<Rightarrow> (Some e, st)
       | Inr t \<Rightarrow>
          (case phi_cardiac (card_trig s) t (of_int (nframes s) * val (tr s)) of
             (okc, pc) \<Rightarrow>
              (case phi_resp (resp_wave s) (resp_dt s) Hb bins respfilt drdt t of
                 Inl e \<Rightarrow> (Some e, st)
               | Inr pr \<Rightarrow> (None, (ok \<and> okc, P(sl := (P sl)(fr := (pc, pr)))))))))"

definition phase_slice ::
  "physio \<Rightarrow> nat list \<Rightarrow> real list \<Rightarrow> real list \<Rightarrow> real list \<Rightarrow> nat \<Rightarrow>
   bool \<times> phase_tensor \<Rightarrow> error option \<times> bool \<times> phase_tensor" where
  "phase_slice s Hb bins respfilt drdt sl st =
     (case slice_times_of s sl of
        Inl e \<Rightarrow> (Some e, st)
      | Inr slice_times \<Rightarrow>
          for_each [0..<nat (nframes s)] (phase_frame s Hb bins respfilt drdt sl slice_times) st)"

definition phase_stage ::
  "physio \<Rightarrow> nat list \<Rightarrow> real list \<Rightarrow> real list \<Rightarrow> real list \<Rightarrow>
   error option \<times> bool \<times> phase_tensor" where
  "phase_stage s Hb bins respfilt drdt =
     for_each [0..<length (slice_order s)] (phase_slice s Hb bins respfilt drdt)
       (True, \<lambda>_ _. (0, 0))"

subsection \<open>RETROICOR regressors (lines 265-286)\<close>

definition retroicor :: "phase_tensor \<Rightarrow> nat \<Rightarrow> nat \<Rightarrow> nat \<Rightarrow> real" where
  "retroicor P fr k sl =
     (let phi_c = fst (P sl fr); phi_r = snd (P sl fr)
      in [cos phi_c, sin phi_c, cos (2 * phi_c), sin (2 * phi_c),
          cos phi_r, sin phi_r, cos (2 * phi_r), sin (2 * phi_r)] ! k)"

subsection \<open>RVHRCOR regressors (lines 288-337)\<close>

definition t_win :: real where
  "t_win = 6 * 0.5"

definition rrf :: "real \<Rightarrow> real" where
  "rrf t = 0.6 * (t powr 2.1) * exp (- t / 1.6) - 0.0023 * (t powr 3.54) * exp (- t / 4.25)"

definition norm_pdf :: "real \<Rightarrow> real \<Rightarrow> real \<Rightarrow> real" where
  "norm_pdf x mu sd = exp (- (((x - mu) / sd)\<^sup>2) / 2) / (sd * sqrt (2 * pi))"

definition crf :: "real \<Rightarrow> real" where
  "crf t = 0.6 * (t powr 2.7) * exp (- t / 1.6) - 16 * norm_pdf t 12 3"

text \<open>\<^verbatim>\<open>t = np.arange(0, 40-self.tr, self.tr)\<close> (line 293).\<close>

definition response_grid :: "pynum \<Rightarrow> error + real list" where
  "response_grid trv = arange 0 (40 - val trv) (val trv)"

text \<open>\<^verbatim>\<open>R / R.max()\<close>: \<^verbatim>\<open>max\<close> of an empty array raises ValueError; the quotient is
  real unless the maximum is 0.\<close>

definition normalise_max :: "real list \<Rightarrow> error + bool \<times> real list" where
  "normalise_max R =
     (if R = [] then Inl ValueError
      else Inr (Max (set R) \<noteq> 0, map (\<lambda>r. r / Max (set R)) R))"

text \<open>\<^verbatim>\<open>np.concatenate(([d[0]], d))\<close>.\<close>

definition repeat_first :: "real list \<Rightarrow> error + real list" where
  "repeat_first d = (case d of [] \<Rightarrow> Inl IndexError | x # _ \<Rightarrow> Inr (x # d))"

text \<open>Lines 308-314 and 330-336: demean the series, normalise the response function
  sampled on \<open>t\<close>, convolve and keep the first \<open>len(x)\<close> samples, differentiate.\<close>

definition response_regressor ::
  "(real \<Rightarrow> real) \<Rightarrow> real list \<Rightarrow> real list \<Rightarrow> error + bool \<times> real list \<times> real list" where
  "response_regressor f t x =
     (let x0 = map (\<lambda>v. v - mean x) x
      in case normalise_max (map f t) of
           Inl e \<Rightarrow> Inl e
         | Inr (okK, K) \<Rightarrow>
            (case convolve x0 K of
               Inl e \<Rightarrow> Inl e
             | Inr c \<Rightarrow>
                (case repeat_first (np_diff (take (length x0) c)) of
                   Inl e \<Rightarrow> Inl e
                 | Inr d \<Rightarrow> Inr (okK, take (length x0) c, d))))"

text \<open>Lines 301-302: the index bounds \<open>(i1, i2)\<close> of the RV window at slice time \<open>t\<close>.\<close>

definition rv_window :: "physio \<Rightarrow> real \<Rightarrow> int \<times> int" where
  "rv_window s t =
     (max 0 \<lfloor>(t - t_win) / resp_dt s\<rfloor>,
      min (int (length (resp_wave s))) \<lfloor>(t + t_win) / resp_dt s\<rfloor>)"

text \<open>Lines 300-305. \<^verbatim>\<open>np.std\<close> of the empty slice (\<open>i2 = i1\<close>) is nan.\<close>

definition rv_frame ::
  "physio \<Rightarrow> real list \<Rightarrow> nat \<Rightarrow> bool \<times> real list \<Rightarrow> error option \<times> bool \<times> real list" where
  "rv_frame s slice_times tp st =
     (case st of (ok, rv) \<Rightarrow>
      (case getitem slice_times (int tp) of
         Inl e \<Rightarrow> (Some e, st)
       | Inr t \<Rightarrow>
          (case rv_window s t of
             (i1, i2) \<Rightarrow>
               if i2 < i1
               then (Some (NIMSPhysioError ''Respiration data is shorter than the scan duration.''), st)
               else (None, (ok \<and> i1 < i2,
                            rv[tp := np_std (take (nat (i2 - i1)) (drop (nat i1) (resp_wave s)))])))))"

text \<open>Line 319: the indices of the triggers within \<open>t_win\<close> of the slice time.\<close>

definition hr_inds :: "real list \<Rightarrow> real \<Rightarrow> nat list" where
  "hr_inds trig t = filter (\<lambda>i. t - t_win \<le> trig ! i \<and> trig ! i \<le> t + t_win) [0..<length trig]"

text \<open>Lines 318-327. The quotient of line 327 is between numpy scalars: a zero
  denominator gives nan or inf.\<close>

definition hr_frame ::
  "physio \<Rightarrow> real list \<Rightarrow> nat \<Rightarrow> bool \<times> real list \<Rightarrow> error option \<times> bool \<times> real list" where
  "hr_frame s slice_times tp st =
     (case st of (ok, hr) \<Rightarrow>
      (case getitem slice_times (int tp) of
         Inl e \<Rightarrow> (Some e, st)
       | Inr t \<Rightarrow>
          (let trig = card_trig s; inds = hr_inds trig t
           in if inds = []
              then (if 0 < tp then (None, (ok, hr[tp := hr ! (tp - 1)]))
                    else (Some (NIMSPhysioError ''Cardiac trigger times do not match scan duration.''), st))
              else (None, (ok \<and> trig ! last inds - trig ! hd inds \<noteq> 0,
                           hr[tp := (real (last inds) - real (hd inds)) * 60
                                    / (trig ! last inds - trig ! hd inds)])))))"

text \<open>The body of the loop of lines 294-337, for slice \<open>sl\<close>. The state is the flag,
  \<^verbatim>\<open>self.heart_rate\<close> and \<^verbatim>\<open>REGRESSORS_RVHR\<close>.\<close>

definition rvhr_slice ::
  "physio \<Rightarrow> real list \<Rightarrow> nat \<Rightarrow> bool \<times> hr_tensor \<times> reg_tensor \<Rightarrow>
   error option \<times> bool \<times> hr_tensor \<times> reg_tensor" where
  "rvhr_slice s t sl st =
     (case st of (ok, HR, RVHR) \<Rightarrow>
      (case slice_times_of s sl of
         Inl e \<Rightarrow> (Some e, st)
       | Inr slice_times \<Rightarrow>
          (let n = nat (nframes s)
           in case for_each [0..<n] (rv_frame s slice_times) (True, replicate n 0) of
                (Some e, _) \<Rightarrow> (Some e, st)
              | (None, (ok_rv, rv)) \<Rightarrow>
                 (case response_regressor rrf t rv of
                    Inl e \<Rightarrow> (Some e, st)
                  | Inr (okR, rv_rrf, rv_rrf_d) \<Rightarrow>
                     (case for_each [0..<n] (hr_frame s slice_times) (True, replicate n 0) of
                        (Some e, _) \<Rightarrow> (Some e, st)
                      | (None, (ok_hr, hr)) \<Rightarrow>
                         (let HR' = (\<lambda>fr. if fr < n then (HR fr)(sl := hr ! fr) else HR fr)
                          in case response_regressor crf t hr of
                               Inl e \<Rightarrow> (Some e, (ok, HR', RVHR))
                             | Inr (okH, hr_crf, hr_crf_d) \<Rightarrow>
                                 (None, (ok \<and> ok_rv \<and> okR \<and> ok_hr \<and> okH, HR',
                                    (\<lambda>fr k. if fr < n \<and> k < 4
                                       then (RVHR fr k)(sl := [rv_rrf, rv_rrf_d, hr_crf, hr_crf_d] ! k ! fr)
                                       else RVHR fr k)))))))))"

subsection \<open>Final regressors and detrending (lines 339-346)\<close>

text \<open>\<^verbatim>\<open>np.concatenate((REGRESSORS_RET, REGRESSORS_RVHR), axis=1)\<close>.\<close>

definition concat_regressors :: "reg_tensor \<Rightarrow> reg_tensor \<Rightarrow> reg_tensor" where
  "concat_regressors RET RVHR = (\<lambda>fr k. if k < 8 then RET fr k else RVHR fr (k - 8))"

text \<open>Line 346, for one slice and one column: the fit is against
  \<^verbatim>\<open>x = np.arange(nframes)\<close>.\<close>

definition detrend_column :: "nat \<Rightarrow> nat \<Rightarrow> nat \<Rightarrow> reg_tensor \<Rightarrow> reg_tensor" where
  "detrend_column n sl reg T =
     (let p = polyfit2 n real (\<lambda>fr. T fr reg sl)
      in (\<lambda>fr. if fr < n
                then (T fr)(reg := (T fr reg)(sl := T fr reg sl - polyval2 p (real fr)))
                else T fr))"

definition detrend_stage :: "nat \<Rightarrow> nat \<Rightarrow> reg_tensor \<Rightarrow> reg_tensor" where
  "detrend_stage n nslc T = fold (\<lambda>sl. fold (detrend_column n sl) [0..<12]) [0..<nslc] T"

subsection \<open>compute_regressors (lines 162-346)\<close>

definition few_frames_msg :: string where
  "few_frames_msg = ''Need at least 3 temporal frames to compute regressors!''"

text \<open>The part after the respiration waveform has been filtered (lines 229-346): phases,
  both regressor sets, detrending. \<open>s\<close> already holds the shifted waveform. The arrays
  \<^verbatim>\<open>self.phases\<close> and \<^verbatim>\<open>self.heart_rate\<close> are filled in place, so an exception leaves
  them partly filled; \<^verbatim>\<open>self.regressors\<close> is assigned after the last statement that can
  raise.\<close>

definition regressors_from ::
  "physio \<Rightarrow> nat list \<Rightarrow> real list \<Rightarrow> real list \<Rightarrow> error option \<times> physio" where
  "regressors_from s Hb bins respfilt =
     (let drdt = np_diff respfilt; nslc = length (slice_order s); n = nat (nframes s)
      in case phase_stage s Hb bins respfilt drdt of
           (Some e, (_, P)) \<Rightarrow> (Some e, s\<lparr>phases := Some P\<rparr>)
         | (None, (ok_ph, P)) \<Rightarrow>
            (let s2 = s\<lparr>phases := Some P, heart_rate := Some (\<lambda>_ _. 0)\<rparr>
             in case response_grid (tr s) of
                  Inl e \<Rightarrow> (Some e, s2)
                | Inr t \<Rightarrow>
                   (case for_each [0..<nslc] (rvhr_slice s2 t) (ok_ph, \<lambda>_ _. 0, \<lambda>_ _ _. 0) of
                      (Some e, (_, HR, _)) \<Rightarrow> (Some e, s2\<lparr>heart_rate := Some HR\<rparr>)
                    | (None, (ok, HR, RVHR)) \<Rightarrow>
                        if ok
                        then (None, s2\<lparr>heart_rate := Some HR,
                                       regressors := Some (detrend_stage n nslc
                                          (concat_regressors (retroicor P) RVHR))\<rparr>)
                        else (Some NanOrInf, s2\<lparr>heart_rate := Some HR\<rparr>))))"

text \<open>\<^verbatim>\<open>self.resp_wave - self.resp_wave.min()\<close> (line 218), on a non-empty array.\<close>

definition zero_min :: "real list \<Rightarrow> real list" where
  "zero_min xs = map (\<lambda>x. x - Min (set xs)) xs"

text \<open>Lines 207-228. \<^verbatim>\<open>min\<close> of an empty array raises ValueError; \<^verbatim>\<open>1. / self.resp_dt\<close>
  is a division of Python floats and raises ZeroDivisionError.\<close>

definition compute_regressors ::
  "(real \<Rightarrow> real list \<Rightarrow> real list option) \<Rightarrow> physio \<Rightarrow> error option \<times> physio" where
  "compute_regressors filt s =
     (if nframes s < 3
      then (None, s\<lparr>regressors := None, log_out := log_out s @ [few_frames_msg]\<rparr>)
      else if resp_wave s = [] then (Some ValueError, s)
      else
        (let s1 = s\<lparr>resp_wave := zero_min (resp_wave s)\<rparr>
         in case histogram (resp_wave s1) 100 of
              (Hb, bins) \<Rightarrow>
                if resp_dt s1 = 0 then (Some ZeroDivisionError, s1)
                else (case filt (resp_dt s1) (resp_wave s1) of
                        None \<Rightarrow> (Some FilterError, s1)
                      | Some respfilt \<Rightarrow> regressors_from s1 Hb bins respfilt)))"

subsection \<open>Notions used in the statements\<close>

text \<open>The offset of line 238, \<^verbatim>\<open>(self.tr/nslc)*(cur_slice_acq+0.5)\<close>, and the time at which
  frame \<open>k\<close> of slice \<open>sl\<close> is acquired: entry \<open>k\<close> of the slice-time array.\<close>

definition slice_offset :: "physio \<Rightarrow> nat \<Rightarrow> real" where
  "slice_offset s cur = py2_div (tr s) (length (slice_order s)) * (real cur + 0.5)"

definition slice_time :: "physio \<Rightarrow> nat \<Rightarrow> nat \<Rightarrow> real" where
  "slice_time s sl k = (case slice_times_of s sl of Inr st \<Rightarrow> st ! k | Inl _ \<Rightarrow> 0)"

text \<open>The sample index of line 255.\<close>

definition iphys_of :: "real \<Rightarrow> real list \<Rightarrow> real \<Rightarrow> int" where
  "iphys_of rdt drdt t = min (max 0 (np_round (t / rdt))) (int (length drdt) - 1)"

text \<open>The two phases that lines 241-260 compute at slice time \<open>t\<close>.\<close>

definition cardiac_phase_at :: "physio \<Rightarrow> real \<Rightarrow> real" where
  "cardiac_phase_at s t = snd (phi_cardiac (card_trig s) t (of_int (nframes s) * val (tr s)))"

definition resp_phase_at :: "physio \<Rightarrow> nat list \<Rightarrow> real list \<Rightarrow> real list \<Rightarrow> real \<Rightarrow> real" where
  "resp_phase_at s Hb bins respfilt t =
     (case phi_resp (resp_wave s) (resp_dt s) Hb bins respfilt (np_diff respfilt) t of
        Inr v \<Rightarrow> v | Inl _ \<Rightarrow> 0)"

text \<open>The hypotheses on the input. Timing: at least three frames, a positive \<open>tr\<close>, and
  \<open>scan_duration\<close> as \<^verbatim>\<open>__init__\<close> sets it.\<close>

definition timing_ok :: "physio \<Rightarrow> bool" where
  "timing_ok s \<longleftrightarrow>
     3 \<le> nframes s \<and> 0 < val (tr s) \<and> scan_duration s = of_int (nframes s) * val (tr s)"

text \<open>Every slice index below \<open>nslices\<close> occurs in \<open>slice_order\<close>; as \<open>slice_order\<close> has
  \<open>nslices\<close> entries, this says that it is a permutation of \<open>[0, nslices)\<close>.\<close>

definition covers_slices :: "physio \<Rightarrow> bool" where
  "covers_slices s \<longleftrightarrow> (\<forall>sl < length (slice_order s). int sl \<in> set (slice_order s))"

text \<open>Respiration: a positive sampling interval, at least two samples, and a library
  filter that returns as many samples as it is given (as \<^verbatim>\<open>filtfilt\<close> does).\<close>

definition filter_ok :: "(real \<Rightarrow> real list \<Rightarrow> real list option) \<Rightarrow> physio \<Rightarrow> bool" where
  "filter_ok filt s \<longleftrightarrow>
     2 \<le> length (resp_wave s) \<and> 0 < resp_dt s \<and>
     (case filt (resp_dt s) (zero_min (resp_wave s)) of
        None \<Rightarrow> False
      | Some respfilt \<Rightarrow> length respfilt = length (resp_wave s))"

text \<open>The object after line 218, and what the phase loops use of lines 220-229.\<close>

definition shifted :: "physio \<Rightarrow> physio" where
  "shifted s = s\<lparr>resp_wave := zero_min (resp_wave s)\<rparr>"

definition resp_ok :: "physio \<Rightarrow> nat list \<Rightarrow> real list \<Rightarrow> real list \<Rightarrow> bool" where
  "resp_ok s Hb bins respfilt \<longleftrightarrow>
     2 \<le> length (resp_wave s) \<and> length respfilt = length (resp_wave s) \<and>
     Hb = fst (histogram (resp_wave s) 100) \<and> bins = snd (histogram (resp_wave s) 100)"

subsection \<open>Example inputs\<close>

text \<open>A stand-in for the library filter that returns the waveform as it is.\<close>

definition no_filter :: "real \<Rightarrow> real list \<Rightarrow> real list option" where
  "no_filter dt xs = Some xs"

text \<open>Two frames only.\<close>

definition short_scan :: physio where
  "short_scan = \<lparr>tr = PyFloat 2, nframes = 2, slice_order = [0], scan_duration = 4,
     card_wave = [], card_trig = [1, 2, 3], card_dt = 0.01,
     resp_wave = [3, 4, 5], resp_dt = 0.25,
     phases = None, heart_rate = None, regressors = None, log_out = []\<rparr>"

text \<open>One slice, three frames (slice times 1, 3, 5), respiration sampled at 4 Hz for two
  seconds: at the last frame the RV window starts at sample 8, the length of the
  waveform.\<close>

definition boundary_scan :: physio where
  "boundary_scan = \<lparr>tr = PyFloat 2, nframes = 3, slice_order = [0], scan_duration = 6,
     card_wave = [], card_trig = [1, 2, 3, 4, 5], card_dt = 0.01,
     resp_wave = [3, 4, 5, 4, 3, 3, 5, 4], resp_dt = 0.25,
     phases = None, heart_rate = None, regressors = None, log_out = []\<rparr>"

text \<open>The same scan without any cardiac trigger.\<close>

definition no_trigger_scan :: physio where
  "no_trigger_scan = boundary_scan\<lparr>card_trig := []\<rparr>"

definition dup_order_scan :: physio where
  "dup_order_scan = boundary_scan\<lparr>slice_order := [0, 0]\<rparr>"









section \<open>Lemmas\<close>

lemma for_each_invariant:
  assumes "for_each xs body st = (None, st')" and "I pre st"
      and "\<And>d i a b. I d a \<Longrightarrow> i \<in> set xs \<Longrightarrow> body i a = (None, b) \<Longrightarrow> I (d @ [i]) b"
  shows "I (pre @ xs) st'"
  using assms
proof (induction xs arbitrary: pre st)
  case Nil
  then show ?case by simp
next
  case (Cons x xs)
  from Cons.prems(1) obtain a where a: "body x st = (None, a)" and r: "for_each xs body a = (None, st')"
    by (auto split: prod.splits option.splits)
  have "I (pre @ [x]) a" using Cons.prems(2,3) a by simp
  from Cons.IH [OF r this] Cons.prems(3) show ?case by simp
qed



lemma first_index_found:
  assumes "v \<in> set xs"
  shows "\<exists>cur. first_index xs v = Inr cur \<and> cur < length xs \<and> xs ! cur = v"
proof -
  from assms obtain i where i: "i < length xs" "xs ! i = v" by (auto simp: in_set_conv_nth)
  then have "i \<in> set (filter (\<lambda>i. xs ! i = v) [0..<length xs])" by simp
  then obtain c cs where f: "filter (\<lambda>i. xs ! i = v) [0..<length xs] = c # cs"
    by (cases "filter (\<lambda>i. xs ! i = v) [0..<length xs]") auto
  then have "c \<in> set (filter (\<lambda>i. xs ! i = v) [0..<length xs])" by simp
  then have "c < length xs \<and> xs ! c = v" by simp
  with f show ?thesis by (simp add: first_index_def)
qed

lemma first_index_missing:
  assumes "v \<notin> set xs"
  shows "first_index xs v = Inl IndexError"
proof -
  have "filter (\<lambda>i. xs ! i = v) [0..<length xs] = []"
    using assms by (auto simp: filter_empty_conv)
  then show ?thesis by (simp add: first_index_def)
qed


lemma arange_frames:
  assumes "0 < step" "0 \<le> off" "off < step" "0 \<le> n"
  shows "arange off (of_int n * step) step = Inr (map (\<lambda>k. off + real k * step) [0..<nat n])"
proof -
  have "(of_int n * step - off) / step = of_int n - off / step"
    using assms by (simp add: field_simps)
  moreover have "0 \<le> off / step" "off / step < 1" using assms by simp_all
  ultimately have "\<lceil>(of_int n * step - off) / step\<rceil> = n"
    by (intro ceiling_unique) linarith+
  then show ?thesis using assms by (simp add: arange_def)
qed

lemma py2_div_offset:
  assumes "0 < val x" "cur < n"
  shows "0 \<le> py2_div x n * (real cur + 0.5) \<and> py2_div x n * (real cur + 0.5) < val x"
proof (cases x)
  case (PyInt i)
  with assms have i: "0 < i" by (simp add: val_def)
  have n: "0 < n" using assms by simp
  have d0: "0 \<le> i div int n" using i by (simp add: pos_imp_zdiv_nonneg_iff n)
  have "real_of_int (i div int n) \<le> real_of_int i / real n"
    using n by (metis floor_divide_of_int_eq of_int_floor_le of_int_of_nat_eq)
  then have "real_of_int (i div int n) * real n \<le> real_of_int i"
    using n by (simp add: field_simps)
  moreover have "real cur + 0.5 < real n" using assms by simp
  ultimately have "real_of_int (i div int n) * (real cur + 0.5) < real_of_int i"
  proof -
    assume a: "real_of_int (i div int n) * real n \<le> real_of_int i" and b: "real cur + 0.5 < real n"
    show ?thesis
    proof (cases "i div int n = 0")
      case True
      then show ?thesis using i by simp
    next
      case False
      with d0 have "0 < real_of_int (i div int n)" by simp
      then have "real_of_int (i div int n) * (real cur + 0.5) < real_of_int (i div int n) * real n"
        using b by (intro mult_strict_left_mono) simp_all
      with a show ?thesis by linarith
    qed
  qed
  with d0 PyInt show ?thesis by (simp add: py2_div_def val_def)
next
  case (PyFloat r)
  with assms have r: "0 < r" by (simp add: val_def)
  have n: "0 < real n" using assms by simp
  have "real cur + 0.5 < real n" using assms by simp
  then have "r / real n * (real cur + 0.5) < r / real n * real n"
    using r n by (intro mult_strict_left_mono) simp_all
  with r n PyFloat show ?thesis by (simp add: py2_div_def val_def)
qed

lemma for_each_append:
  "for_each (xs @ ys) body st =
     (case for_each xs body st of
        (None, st') \<Rightarrow> for_each ys body st'
      | (Some e, st') \<Rightarrow> (Some e, st'))"
  by (induction xs arbitrary: st) (auto split: prod.splits option.splits)


lemma slice_times_ok:
  assumes "0 < val (tr s)" "scan_duration s = of_int (nframes s) * val (tr s)"
      and "0 \<le> nframes s" "int sl \<in> set (slice_order s)"
  shows "\<exists>cur. first_index (slice_order s) (int sl) = Inr cur \<and> cur < length (slice_order s) \<and>
           slice_times_of s sl =
             Inr (map (\<lambda>k. slice_offset s cur + real k * val (tr s)) [0..<nat (nframes s)]) \<and>
           0 \<le> slice_offset s cur \<and> slice_offset s cur < val (tr s)"
proof -
  from first_index_found [OF assms(4)] obtain cur where
    cur: "first_index (slice_order s) (int sl) = Inr cur" "cur < length (slice_order s)" by blast
  have off: "0 \<le> slice_offset s cur \<and> slice_offset s cur < val (tr s)"
    unfolding slice_offset_def by (rule py2_div_offset [OF assms(1) cur(2)])
  have "slice_times_of s sl = arange (slice_offset s cur) (of_int (nframes s) * val (tr s)) (val (tr s))"
    using cur(1) assms(2) by (simp add: slice_times_of_def slice_offset_def)
  also have "\<dots> = Inr (map (\<lambda>k. slice_offset s cur + real k * val (tr s)) [0..<nat (nframes s)])"
    using off assms(1,3) by (intro arange_frames) simp_all
  finally show ?thesis using cur off by blast
qed

lemma phi_cardiac_window:
  assumes "0 \<le> t" "t < dflt"
  shows "fst (phi_cardiac trig t dflt) \<and> 0 \<le> snd (phi_cardiac trig t dflt) \<and>
         snd (phi_cardiac trig t dflt) \<le> 2 * pi"
proof -
  define prev where "prev = filter (\<lambda>i. trig ! i < t) [0..<length trig]"
  define nxt where "nxt = filter (\<lambda>i. t < trig ! i) [0..<length trig]"
  define t1 where "t1 = (if prev = [] then 0 else trig ! last prev)"
  define t2 where "t2 = (if nxt = [] then dflt else trig ! hd nxt)"
  have "prev \<noteq> [] \<Longrightarrow> last prev \<in> set prev" by simp
  then have "prev \<noteq> [] \<Longrightarrow> trig ! last prev < t" unfolding prev_def by auto
  then have t1: "t1 \<le> t" using assms(1) by (auto simp: t1_def)
  have "nxt \<noteq> [] \<Longrightarrow> hd nxt \<in> set nxt" by simp
  then have "nxt \<noteq> [] \<Longrightarrow> t < trig ! hd nxt" unfolding nxt_def by auto
  then have t2: "t < t2" using assms(2) by (auto simp: t2_def)
  have eq: "phi_cardiac trig t dflt = (t2 - t1 \<noteq> 0, (t - t1) * 2 * pi / (t2 - t1))"
    by (simp add: phi_cardiac_def Let_def prev_def nxt_def t1_def t2_def)
  have pos: "0 < t2 - t1" using t1 t2 by simp
  have "0 \<le> (t - t1) * 2 * pi / (t2 - t1)" using t1 pos by simp
  moreover have "(t - t1) * 2 * pi / (t2 - t1) \<le> 2 * pi"
  proof -
    have "(t - t1) * (2 * pi) \<le> (t2 - t1) * (2 * pi)"
      using t2 by (intro mult_right_mono) simp_all
    then show ?thesis using pos by (simp add: field_simps)
  qed
  ultimately show ?thesis using pos eq by simp
qed

lemma phi_cardiac_no_trigger:
  "snd (phi_cardiac [] t dflt) = t * 2 * pi / dflt"
  by (simp add: phi_cardiac_def)

lemma count_disjoint:
  assumes "\<And>i j x. i < m \<Longrightarrow> j < m \<Longrightarrow> Q i x \<Longrightarrow> Q j x \<Longrightarrow> i = j"
  shows "(\<Sum>i<(m::nat). length (filter (Q i) a)) \<le> length a"
proof (induction a)
  case Nil
  then show ?case by simp
next
  case (Cons x a)
  have one: "(\<Sum>i<m. if Q i x then 1 else 0) \<le> (1::nat)"
  proof (cases "\<exists>i<m. Q i x")
    case True
    then obtain i where i: "i < m" "Q i x" by blast
    have "(\<Sum>j<m. if Q j x then 1 else 0) = (\<Sum>j<m. if j = i then 1 else (0::nat))"
      using assms i by (intro sum.cong) auto
    also have "\<dots> = 1" using i sum.delta [of "{..<m}" i "\<lambda>_. 1::nat"] by simp
    finally show ?thesis by simp
  next
    case False
    then have "(\<Sum>j<m. if Q j x then 1 else 0) = (\<Sum>j<m. (0::nat))"
      by (intro sum.cong) auto
    then show ?thesis by simp
  qed
  have "(\<Sum>i<m. length (filter (Q i) (x # a)))
          = (\<Sum>i<m. (if Q i x then 1 else 0) + length (filter (Q i) a))"
    by (intro sum.cong) auto
  also have "\<dots> = (\<Sum>i<m. if Q i x then 1 else 0) + (\<Sum>i<m. length (filter (Q i) a))"
    by (simp add: sum.distrib)
  finally show ?case using one Cons.IH by simp
qed

lemma bin_edges_nth:
  assumes "i \<le> nb"
  shows "bin_edges a nb ! i =
            (if Min (set a) = Max (set a) then Min (set a) - 1 / 2 else Min (set a)) +
            real i * ((if Min (set a) = Max (set a) then Max (set a) + 1 / 2 else Max (set a)) -
                      (if Min (set a) = Max (set a) then Min (set a) - 1 / 2 else Min (set a))) / real nb"
  using assms by (simp add: bin_edges_def Let_def nth_append del: upt_Suc)

lemma bin_edges_mono:
  assumes "a \<noteq> []" "i \<le> j" "j \<le> nb"
  shows "bin_edges a nb ! i \<le> bin_edges a nb ! j"
proof -
  have "Min (set a) \<le> Max (set a)" using assms(1) by simp
  then have w: "0 \<le> ((if Min (set a) = Max (set a) then Max (set a) + 1 / 2 else Max (set a)) -
                      (if Min (set a) = Max (set a) then Min (set a) - 1 / 2 else Min (set a)))"
    by auto
  have "real i \<le> real j" using assms by simp
  then show ?thesis using assms w
    by (simp add: bin_edges_nth divide_right_mono mult_right_mono del: of_nat_le_iff)
qed

lemma in_bin_disjoint:
  assumes "a \<noteq> []" "i < nb" "j < nb" "in_bin (bin_edges a nb) nb i x" "in_bin (bin_edges a nb) nb j x"
  shows "i = j"
proof (rule ccontr)
  assume ne: "i \<noteq> j"
  have aux: False if lt: "p < q" and q: "q < nb"
      and bp: "in_bin (bin_edges a nb) nb p x" and bq: "in_bin (bin_edges a nb) nb q x" for p q
  proof -
    have "Suc p \<noteq> nb" using lt q by simp
    with bp have "x < bin_edges a nb ! Suc p" by (simp add: in_bin_def)
    moreover have "bin_edges a nb ! Suc p \<le> bin_edges a nb ! q"
      using lt q assms(1) by (intro bin_edges_mono) simp_all
    moreover have "bin_edges a nb ! q \<le> x" using bq by (simp add: in_bin_def)
    ultimately show False by simp
  qed
  from ne consider "i < j" | "j < i" by linarith
  then show False using aux assms by cases blast+
qed

lemma histogram_partial_count:
  assumes "a \<noteq> []"
  shows "sum_list (take k (fst (histogram a nb))) \<le> length a"
proof -
  let ?c = "\<lambda>i. length (filter (in_bin (bin_edges a nb) nb i) a)"
  have "take k [0..<nb] = [0..<min k nb]"
    by (cases "k \<le> nb") (simp_all add: min_def)
  then have "take k (fst (histogram a nb)) = map ?c [0..<min k nb]"
    by (simp add: histogram_def Let_def take_map)
  then have "sum_list (take k (fst (histogram a nb))) = (\<Sum>i<min k nb. ?c i)"
    by (simp add: sum_list_sum_nth atLeast0LessThan)
  also have "\<dots> \<le> length a"
    by (rule count_disjoint) (use assms in_bin_disjoint in \<open>auto\<close>)
  finally show ?thesis .
qed

lemma histogram_edges:
  "snd (histogram a nb) = bin_edges a nb" "length (bin_edges a nb) = Suc nb"
  by (simp_all add: histogram_def bin_edges_def Let_def)

lemma argmin_ok:
  assumes "xs \<noteq> []"
  shows "\<exists>i. argmin xs = Inr i"
proof -
  have "Min (set xs) \<in> set xs" using assms by simp
  then obtain i where "i < length xs" "xs ! i = Min (set xs)" by (auto simp: in_set_conv_nth)
  then have "i \<in> set (filter (\<lambda>i. xs ! i = Min (set xs)) [0..<length xs])" by simp
  then show ?thesis by (cases "filter (\<lambda>i. xs ! i = Min (set xs)) [0..<length xs]") (auto simp: argmin_def)
qed

lemma phi_resp_ok:
  assumes "a \<noteq> []" "2 \<le> length rw" "length respfilt = length rw" "length a = length rw"
  shows "\<exists>k. sum_list (take k (fst (histogram a nb))) \<le> length respfilt \<and>
           phi_resp rw rdt (fst (histogram a nb)) (snd (histogram a nb)) respfilt (np_diff respfilt) t =
             Inr (pi * sgn (np_diff respfilt ! nat (iphys_of rdt (np_diff respfilt) t)) *
                  (real (sum_list (take k (fst (histogram a nb)))) / real (length respfilt)))"
proof -
  let ?drdt = "np_diff respfilt"
  let ?i = "iphys_of rdt ?drdt t"
  have ld: "length ?drdt = length rw - 1" using assms by (simp add: np_diff_def)
  have i0: "0 \<le> ?i" using ld assms(2) by (simp add: iphys_of_def)
  have i1: "?i < int (length ?drdt)" by (simp add: iphys_of_def)
  have i2: "?i < int (length rw)" using i1 ld by simp
  have g1: "getitem rw ?i = Inr (rw ! nat ?i)" using i0 i2 by (simp add: getitem_def)
  have g2: "getitem ?drdt ?i = Inr (?drdt ! nat ?i)" using i0 i1 by (simp add: getitem_def)
  have "map (\<lambda>b. \<bar>rw ! nat ?i - b\<bar>) (snd (histogram a nb)) \<noteq> []"
    using histogram_edges [of a nb] by (metis length_0_conv map_is_Nil_conv nat.distinct(1))
  from argmin_ok [OF this] obtain k where
    k: "argmin (map (\<lambda>b. \<bar>rw ! nat ?i - b\<bar>) (snd (histogram a nb))) = Inr k" by blast
  have "phi_resp rw rdt (fst (histogram a nb)) (snd (histogram a nb)) respfilt ?drdt t =
          Inr (pi * sgn (?drdt ! nat ?i) *
                  (real (sum_list (take k (fst (histogram a nb)))) / real (length respfilt)))"
    using g1 g2 k by (simp add: phi_resp_def Let_def iphys_of_def)
  moreover have "sum_list (take k (fst (histogram a nb))) \<le> length respfilt"
    using histogram_partial_count [OF assms(1), of k nb] assms by simp
  ultimately show ?thesis by blast
qed

lemma resp_phase_formula_bounds:
  fixes d :: real
  assumes "c \<le> n" "0 < n"
  shows "- pi \<le> pi * sgn d * (real c / real n) \<and> pi * sgn d * (real c / real n) \<le> pi \<and>
         (d = 0 \<longrightarrow> pi * sgn d * (real c / real n) = 0)"
proof -
  let ?q = "real c / real n"
  have q: "0 \<le> ?q" "?q \<le> 1" using assms by (simp_all add: divide_le_eq_1)
  have sg: "\<bar>sgn d\<bar> \<le> 1" by (simp add: abs_sgn_eq)
  have "\<bar>pi * sgn d * ?q\<bar> = pi * (\<bar>sgn d\<bar> * ?q)" using q by (simp add: abs_mult)
  also have "\<dots> \<le> pi * (1 * 1)"
    using sg q by (intro mult_left_mono mult_mono) simp_all
  finally have "\<bar>pi * sgn d * ?q\<bar> \<le> pi" by simp
  then have "- pi \<le> pi * sgn d * ?q \<and> pi * sgn d * ?q \<le> pi" by linarith
  then show ?thesis by simp
qed

lemma for_each_upt_total:
  assumes "I 0 st"
      and "\<And>k a. k < n \<Longrightarrow> I k a \<Longrightarrow> \<exists>b. body k a = (None, b) \<and> I (Suc k) b"
  shows "\<exists>st'. for_each [0..<n] body st = (None, st') \<and> I n st'"
  using assms
proof (induction n)
  case 0
  then show ?case by simp
next
  case (Suc n)
  have "\<exists>a. for_each [0..<n] body st = (None, a) \<and> I n a"
    using Suc.IH Suc.prems by simp
  then obtain a where a: "for_each [0..<n] body st = (None, a)" "I n a" by blast
  from Suc.prems(2) [of n a] a(2) obtain b where "body n a = (None, b)" "I (Suc n) b" by auto
  with a show ?case by (simp add: for_each_append)
qed

lemma slice_time_bounds:
  assumes "timing_ok s" "int sl \<in> set (slice_order s)"
  shows "\<exists>cur st. first_index (slice_order s) (int sl) = Inr cur \<and> cur < length (slice_order s) \<and>
           slice_times_of s sl = Inr st \<and> length st = nat (nframes s) \<and>
           0 \<le> slice_offset s cur \<and> slice_offset s cur < val (tr s) \<and>
           (\<forall>k < nat (nframes s). st ! k = slice_offset s cur + real k * val (tr s) \<and>
               slice_time s sl k = st ! k \<and>
               0 \<le> st ! k \<and> st ! k < of_int (nframes s) * val (tr s))"
proof -
  from assms(1) have t: "0 < val (tr s)" "scan_duration s = of_int (nframes s) * val (tr s)"
    "0 \<le> nframes s" by (simp_all add: timing_ok_def)
  from slice_times_ok [OF t assms(2)] obtain cur where
    cur: "first_index (slice_order s) (int sl) = Inr cur" "cur < length (slice_order s)"
      "slice_times_of s sl =
         Inr (map (\<lambda>k. slice_offset s cur + real k * val (tr s)) [0..<nat (nframes s)])"
      "0 \<le> slice_offset s cur" "slice_offset s cur < val (tr s)" by blast
  let ?st = "map (\<lambda>k. slice_offset s cur + real k * val (tr s)) [0..<nat (nframes s)]"
  have "\<forall>k < nat (nframes s). ?st ! k = slice_offset s cur + real k * val (tr s) \<and>
               slice_time s sl k = ?st ! k \<and>
               0 \<le> ?st ! k \<and> ?st ! k < of_int (nframes s) * val (tr s)"
  proof (intro allI impI)
    fix k assume k: "k < nat (nframes s)"
    then have "real k + 1 \<le> of_int (nframes s)" by linarith
    then have "(real k + 1) * val (tr s) \<le> of_int (nframes s) * val (tr s)"
      using t(1) by (intro mult_right_mono) simp_all
    then have "slice_offset s cur + real k * val (tr s) < of_int (nframes s) * val (tr s)"
      using cur(5) by (simp add: algebra_simps)
    moreover have "0 \<le> slice_offset s cur + real k * val (tr s)"
      using cur(4) t(1) by simp
    ultimately show "?st ! k = slice_offset s cur + real k * val (tr s) \<and>
               slice_time s sl k = ?st ! k \<and>
               0 \<le> ?st ! k \<and> ?st ! k < of_int (nframes s) * val (tr s)"
      using k cur(3) by (simp add: slice_time_def)
  qed
  then show ?thesis using cur by (intro exI [of _ cur] exI [of _ ?st]) simp
qed

lemma resp_phase_at_bounds:
  assumes "resp_ok s Hb bins respfilt"
  shows "phi_resp (resp_wave s) (resp_dt s) Hb bins respfilt (np_diff respfilt) t
           = Inr (resp_phase_at s Hb bins respfilt t) \<and>
         (\<exists>k. sum_list (take k Hb) \<le> length respfilt \<and>
              resp_phase_at s Hb bins respfilt t =
                pi * sgn (np_diff respfilt ! nat (iphys_of (resp_dt s) (np_diff respfilt) t)) *
                  (real (sum_list (take k Hb)) / real (length respfilt))) \<and>
         - pi \<le> resp_phase_at s Hb bins respfilt t \<and> resp_phase_at s Hb bins respfilt t \<le> pi \<and>
         (np_diff respfilt ! nat (iphys_of (resp_dt s) (np_diff respfilt) t) = 0 \<longrightarrow>
            resp_phase_at s Hb bins respfilt t = 0)"
proof -
  from assms have a: "resp_wave s \<noteq> []" "2 \<le> length (resp_wave s)"
    "length respfilt = length (resp_wave s)"
    and h: "Hb = fst (histogram (resp_wave s) 100)" "bins = snd (histogram (resp_wave s) 100)"
    by (auto simp: resp_ok_def)
  from phi_resp_ok [OF a(1) a(2) a(3) refl, where rdt = "resp_dt s" and nb = 100 and t = t] obtain k where
    k: "sum_list (take k Hb) \<le> length respfilt"
       "phi_resp (resp_wave s) (resp_dt s) Hb bins respfilt (np_diff respfilt) t =
          Inr (pi * sgn (np_diff respfilt ! nat (iphys_of (resp_dt s) (np_diff respfilt) t)) *
                  (real (sum_list (take k Hb)) / real (length respfilt)))"
    unfolding h by blast
  have v: "resp_phase_at s Hb bins respfilt t =
             pi * sgn (np_diff respfilt ! nat (iphys_of (resp_dt s) (np_diff respfilt) t)) *
                  (real (sum_list (take k Hb)) / real (length respfilt))"
    using k(2) by (simp add: resp_phase_at_def)
  have n: "0 < length respfilt" using a by simp
  from resp_phase_formula_bounds [OF k(1) n] v k show ?thesis by auto
qed

lemma phase_frame_ok:
  assumes "resp_ok s Hb bins respfilt" "fr < length st" "0 \<le> st ! fr"
      and "st ! fr < of_int (nframes s) * val (tr s)"
  shows "phase_frame s Hb bins respfilt (np_diff respfilt) sl st fr (ok, P) =
           (None, (ok, P(sl := (P sl)(fr := (cardiac_phase_at s (st ! fr),
                                            resp_phase_at s Hb bins respfilt (st ! fr))))))"
proof -
  have g: "getitem st (int fr) = Inr (st ! fr)" using assms(2) by (simp add: getitem_def)
  from phi_cardiac_window [OF assms(3,4), of "card_trig s"]
  have c: "phi_cardiac (card_trig s) (st ! fr) (of_int (nframes s) * val (tr s))
             = (True, cardiac_phase_at s (st ! fr))"
    by (simp add: cardiac_phase_at_def prod_eq_iff)
  from resp_phase_at_bounds [OF assms(1), of "st ! fr"]
  have r: "phi_resp (resp_wave s) (resp_dt s) Hb bins respfilt (np_diff respfilt) (st ! fr)
             = Inr (resp_phase_at s Hb bins respfilt (st ! fr))" by simp
  show ?thesis by (simp add: phase_frame_def g c r)
qed

lemma phase_slice_ok:
  assumes "resp_ok s Hb bins respfilt" "timing_ok s" "int sl \<in> set (slice_order s)"
  shows "\<exists>P'. phase_slice s Hb bins respfilt (np_diff respfilt) sl (ok, P) = (None, (ok, P')) \<and>
           (\<forall>fr < nat (nframes s). P' sl fr = (cardiac_phase_at s (slice_time s sl fr),
                                               resp_phase_at s Hb bins respfilt (slice_time s sl fr))) \<and>
           (\<forall>sl'. sl' \<noteq> sl \<longrightarrow> P' sl' = P sl')"
proof -
  from slice_time_bounds [OF assms(2,3)] obtain st where
    st: "slice_times_of s sl = Inr st" "length st = nat (nframes s)"
    and b: "\<forall>k < nat (nframes s). slice_time s sl k = st ! k \<and>
               0 \<le> st ! k \<and> st ! k < of_int (nframes s) * val (tr s)" by blast
  let ?v = "\<lambda>fr. (cardiac_phase_at s (st ! fr), resp_phase_at s Hb bins respfilt (st ! fr))"
  let ?I = "\<lambda>k a. fst a = ok \<and> (\<forall>fr < k. snd a sl fr = ?v fr) \<and> (\<forall>sl'. sl' \<noteq> sl \<longrightarrow> snd a sl' = P sl')"
  have "\<exists>a. for_each [0..<nat (nframes s)]
               (phase_frame s Hb bins respfilt (np_diff respfilt) sl st) (ok, P) = (None, a) \<and>
             ?I (nat (nframes s)) a"
  proof (rule for_each_upt_total [where I = ?I])
    show "?I 0 (ok, P)" by simp
  next
    fix k a assume k: "k < nat (nframes s)" and I: "?I k a"
    obtain o' Q where a: "a = (o', Q)" by (cases a)
    have "phase_frame s Hb bins respfilt (np_diff respfilt) sl st k (o', Q) =
            (None, (o', Q(sl := (Q sl)(k := ?v k))))"
      using k st(2) b by (intro phase_frame_ok [OF assms(1)]) simp_all
    moreover have "?I (Suc k) (o', Q(sl := (Q sl)(k := ?v k)))"
      using I a by (auto simp: less_Suc_eq)
    ultimately show "\<exists>b. phase_frame s Hb bins respfilt (np_diff respfilt) sl st k a = (None, b) \<and> ?I (Suc k) b"
      using a by blast
  qed
  then obtain a where a: "for_each [0..<nat (nframes s)]
               (phase_frame s Hb bins respfilt (np_diff respfilt) sl st) (ok, P) = (None, a)"
     "?I (nat (nframes s)) a" by blast
  obtain o' P' where op: "a = (o', P')" by (cases a)
  have "phase_slice s Hb bins respfilt (np_diff respfilt) sl (ok, P) = (None, (ok, P'))"
    using a op st(1) by (simp add: phase_slice_def)
  moreover have "\<forall>fr < nat (nframes s). P' sl fr = (cardiac_phase_at s (slice_time s sl fr),
                     resp_phase_at s Hb bins respfilt (slice_time s sl fr))"
    using a(2) op b by simp
  moreover have "\<forall>sl'. sl' \<noteq> sl \<longrightarrow> P' sl' = P sl'" using a(2) op by simp
  ultimately show ?thesis by blast
qed

lemma phase_stage_ok:
  assumes "resp_ok s Hb bins respfilt" "timing_ok s" "covers_slices s"
  shows "\<exists>P. phase_stage s Hb bins respfilt (np_diff respfilt) = (None, (True, P)) \<and>
           (\<forall>sl < length (slice_order s). \<forall>fr < nat (nframes s).
               P sl fr = (cardiac_phase_at s (slice_time s sl fr),
                          resp_phase_at s Hb bins respfilt (slice_time s sl fr)))"
proof -
  let ?v = "\<lambda>sl fr. (cardiac_phase_at s (slice_time s sl fr),
                     resp_phase_at s Hb bins respfilt (slice_time s sl fr))"
  let ?I = "\<lambda>k a. fst a \<and> (\<forall>sl < k. \<forall>fr < nat (nframes s). snd a sl fr = ?v sl fr)"
  have "\<exists>a. for_each [0..<length (slice_order s)]
               (phase_slice s Hb bins respfilt (np_diff respfilt)) (True, \<lambda>_ _. (0, 0)) = (None, a) \<and>
             ?I (length (slice_order s)) a"
  proof (rule for_each_upt_total [where I = ?I])
    show "?I 0 (True, \<lambda>_ _. (0, 0))" by simp
  next
    fix k a assume k: "k < length (slice_order s)" and I: "?I k a"
    obtain Q where a: "a = (True, Q)" using I by (cases a) auto
    have "int k \<in> set (slice_order s)" using assms(3) k by (simp add: covers_slices_def)
    from phase_slice_ok [OF assms(1,2) this, of True Q] obtain P' where
      P': "phase_slice s Hb bins respfilt (np_diff respfilt) k (True, Q) = (None, (True, P'))"
        "\<forall>fr < nat (nframes s). P' k fr = ?v k fr" "\<forall>sl'. sl' \<noteq> k \<longrightarrow> P' sl' = Q sl'" by blast
    have "?I (Suc k) (True, P')"
      using I a P'(2,3) by (auto simp: less_Suc_eq)
    with P'(1) a show "\<exists>b. phase_slice s Hb bins respfilt (np_diff respfilt) k a = (None, b) \<and> ?I (Suc k) b"
      by blast
  qed
  then obtain a where a: "for_each [0..<length (slice_order s)]
               (phase_slice s Hb bins respfilt (np_diff respfilt)) (True, \<lambda>_ _. (0, 0)) = (None, a)"
     "?I (length (slice_order s)) a" by blast
  obtain P where "a = (True, P)" using a(2) by (cases a) auto
  with a show ?thesis by (auto simp: phase_stage_def)
qed

lemma length_zero_min [simp]: "length (zero_min xs) = length xs"
  by (simp add: zero_min_def)

lemma shifted_simps:
  "tr (shifted s) = tr s" "nframes (shifted s) = nframes s"
  "slice_order (shifted s) = slice_order s" "scan_duration (shifted s) = scan_duration s"
  "card_trig (shifted s) = card_trig s" "resp_dt (shifted s) = resp_dt s"
  "resp_wave (shifted s) = zero_min (resp_wave s)"
  "length (resp_wave (shifted s)) = length (resp_wave s)"
  "slice_times_of (shifted s) = slice_times_of s" "slice_time (shifted s) = slice_time s"
  "cardiac_phase_at (shifted s) = cardiac_phase_at s"
  "timing_ok (shifted s) = timing_ok s" "covers_slices (shifted s) = covers_slices s"
  by (auto simp: shifted_def zero_min_def slice_times_of_def slice_time_def cardiac_phase_at_def
        timing_ok_def covers_slices_def fun_eq_iff split: sum.splits)

lemma compute_regressors_reaches:
  assumes "3 \<le> nframes s" "filter_ok filt s"
  shows "\<exists>respfilt. filt (resp_dt s) (zero_min (resp_wave s)) = Some respfilt \<and>
           resp_ok (shifted s) (fst (histogram (zero_min (resp_wave s)) 100))
              (snd (histogram (zero_min (resp_wave s)) 100)) respfilt \<and>
           compute_regressors filt s =
             regressors_from (shifted s) (fst (histogram (zero_min (resp_wave s)) 100))
               (snd (histogram (zero_min (resp_wave s)) 100)) respfilt"
proof -
  from assms(2) obtain respfilt where
    rf: "filt (resp_dt s) (zero_min (resp_wave s)) = Some respfilt"
        "length respfilt = length (resp_wave s)"
    and l: "2 \<le> length (resp_wave s)" and dt: "0 < resp_dt s"
    by (auto simp: filter_ok_def split: option.splits)
  have ne: "resp_wave s \<noteq> []" using l by auto
  have "resp_ok (shifted s) (fst (histogram (zero_min (resp_wave s)) 100))
              (snd (histogram (zero_min (resp_wave s)) 100)) respfilt"
    using rf l by (simp add: resp_ok_def shifted_simps)
  moreover have "compute_regressors filt s =
             regressors_from (shifted s) (fst (histogram (zero_min (resp_wave s)) 100))
               (snd (histogram (zero_min (resp_wave s)) 100)) respfilt"
    using assms(1) ne dt rf
    by (simp add: compute_regressors_def Let_def shifted_def split: prod.splits)
  ultimately show ?thesis using rf by blast
qed

lemma regressors_from_phases:
  assumes "phase_stage s Hb bins respfilt (np_diff respfilt) = (r, (ok, P))"
  shows "phases (snd (regressors_from s Hb bins respfilt)) = Some P"
  using assms
  by (auto simp: regressors_from_def Let_def split: prod.splits option.splits sum.splits)

lemma phases_after:
  assumes "timing_ok s" "covers_slices s" "filter_ok filt s"
  shows "\<exists>P respfilt. filt (resp_dt s) (zero_min (resp_wave s)) = Some respfilt \<and>
           resp_ok (shifted s) (fst (histogram (zero_min (resp_wave s)) 100))
              (snd (histogram (zero_min (resp_wave s)) 100)) respfilt \<and>
           phases (snd (compute_regressors filt s)) = Some P \<and>
           (\<forall>sl < length (slice_order s). \<forall>fr < nat (nframes s).
               P sl fr = (cardiac_phase_at s (slice_time s sl fr),
                          resp_phase_at (shifted s) (fst (histogram (zero_min (resp_wave s)) 100))
                             (snd (histogram (zero_min (resp_wave s)) 100)) respfilt
                             (slice_time s sl fr)))"
proof -
  let ?Hb = "fst (histogram (zero_min (resp_wave s)) 100)"
  let ?bins = "snd (histogram (zero_min (resp_wave s)) 100)"
  have n3: "3 \<le> nframes s" using assms(1) by (simp add: timing_ok_def)
  from compute_regressors_reaches [OF n3 assms(3)] obtain respfilt where
    rf: "filt (resp_dt s) (zero_min (resp_wave s)) = Some respfilt"
        "resp_ok (shifted s) ?Hb ?bins respfilt"
        "compute_regressors filt s = regressors_from (shifted s) ?Hb ?bins respfilt" by blast
  from phase_stage_ok [OF rf(2)] assms(1,2) obtain P where
    P: "phase_stage (shifted s) ?Hb ?bins respfilt (np_diff respfilt) = (None, (True, P))"
       "\<forall>sl < length (slice_order s). \<forall>fr < nat (nframes s).
               P sl fr = (cardiac_phase_at s (slice_time s sl fr),
                          resp_phase_at (shifted s) ?Hb ?bins respfilt (slice_time s sl fr))"
    by (auto simp: shifted_simps)
  from regressors_from_phases [OF P(1)] rf(3)
  have "phases (snd (compute_regressors filt s)) = Some P" by simp
  with rf P(2) show ?thesis by blast
qed

section \<open>Properties\<close>

subsection \<open>Fewer than three frames\<close>

text \<open>
  C7. For every input with \<open>nframes < 3\<close>, \<open>compute_regressors\<close> returns without raising
  (the outcome is \<open>None\<close>), emits the warning, and sets \<open>regressors\<close> to \<open>None\<close>; every
  other field, in particular \<open>phases\<close> and \<open>heart_rate\<close>, is left as it was.
\<close>

theorem few_frames_declines:
  assumes "nframes s < 3"
  shows "compute_regressors filt s =
           (None, s\<lparr>regressors := None, log_out := log_out s @ [few_frames_msg]\<rparr>)"
  using assms by (simp add: compute_regressors_def)

theorem few_frames_declines_witness:
  "nframes short_scan < 3 \<and>
   compute_regressors no_filter short_scan =
     (None, short_scan\<lparr>regressors := None, log_out := log_out short_scan @ [few_frames_msg]\<rparr>)"
  using few_frames_declines [of short_scan no_filter]
  by (simp add: short_scan_def)

subsection \<open>The time grid of the response functions\<close>

text \<open>
  C1. The grid \<^verbatim>\<open>t = np.arange(0, 40-self.tr, self.tr)\<close> on which both response functions
  are sampled, evaluated for \<open>tr = 2\<close>: it ends at 36. The multiple 38 of \<open>tr\<close>, which is
  below 40, is not on it.
\<close>

theorem response_grid_tr2:
  "response_grid (PyFloat 2) =
     Inr [0, 2, 4, 6, 8, 10, 12, 14, 16, 18, 20, 22, 24, 26, 28, 30, 32, 34, 36]"
  by (simp add: response_grid_def arange_def val_def upt_rec)

subsection \<open>What the call does to the input fields\<close>

lemma inputs_after:
  assumes "snd (compute_regressors filt s) = s'"
  shows "tr s' = tr s \<and> nframes s' = nframes s \<and> slice_order s' = slice_order s \<and>
         scan_duration s' = scan_duration s \<and> card_wave s' = card_wave s \<and>
         card_trig s' = card_trig s \<and> card_dt s' = card_dt s \<and> resp_dt s' = resp_dt s \<and>
         resp_wave s' = (if nframes s < 3 \<or> resp_wave s = [] then resp_wave s
                         else zero_min (resp_wave s))"
  using assms
  by (auto simp: compute_regressors_def regressors_from_def Let_def
           split: prod.splits option.splits sum.splits if_splits)

text \<open>
  C4, as the claim states it, fails: the call replaces \<open>resp_wave\<close> by the waveform
  shifted to minimum 0 (line 218).
\<close>

theorem resp_wave_overwritten:
  "resp_wave (snd (compute_regressors no_filter boundary_scan)) = [0, 1, 2, 1, 0, 0, 2, 1] \<and>
   resp_wave (snd (compute_regressors no_filter boundary_scan)) \<noteq> resp_wave boundary_scan"
  using inputs_after [OF refl, of no_filter boundary_scan]
  by (simp add: boundary_scan_def zero_min_def)

text \<open>
  C4, amended. Whatever the outcome of the call, \<open>card_trig\<close>, \<open>card_wave\<close>, \<open>tr\<close>,
  \<open>nframes\<close>, \<open>slice_order\<close> (and \<open>scan_duration\<close>, \<open>card_dt\<close>, \<open>resp_dt\<close>) hold the values
  they held before. \<open>resp_wave\<close> is left alone when \<open>nframes < 3\<close> or the waveform is
  empty; otherwise it holds the waveform minus its minimum.
\<close>

theorem inputs_read_only_but_resp_wave:
  "tr (snd (compute_regressors filt s)) = tr s \<and>
   nframes (snd (compute_regressors filt s)) = nframes s \<and>
   slice_order (snd (compute_regressors filt s)) = slice_order s \<and>
   scan_duration (snd (compute_regressors filt s)) = scan_duration s \<and>
   card_wave (snd (compute_regressors filt s)) = card_wave s \<and>
   card_trig (snd (compute_regressors filt s)) = card_trig s \<and>
   card_dt (snd (compute_regressors filt s)) = card_dt s \<and>
   resp_dt (snd (compute_regressors filt s)) = resp_dt s \<and>
   resp_wave (snd (compute_regressors filt s)) =
     (if nframes s < 3 \<or> resp_wave s = [] then resp_wave s
      else zero_min (resp_wave s))"
  using inputs_after [OF refl, of filt s] by simp

subsection \<open>Cardiac phase\<close>

lemma cardiac_phase_at_bounds:
  assumes "timing_ok s" "int sl \<in> set (slice_order s)" "fr < nat (nframes s)"
  shows "0 \<le> cardiac_phase_at s (slice_time s sl fr) \<and>
         cardiac_phase_at s (slice_time s sl fr) \<le> 2 * pi"
proof -
  from slice_time_bounds [OF assms(1,2)] assms(3)
  have "0 \<le> slice_time s sl fr" "slice_time s sl fr < of_int (nframes s) * val (tr s)"
    by auto
  from phi_cardiac_window [OF this, of "card_trig s"] show ?thesis
    by (simp add: cardiac_phase_at_def)
qed

lemma slice_time_mono:
  assumes "timing_ok s" "int sl \<in> set (slice_order s)" "fr \<le> fr'" "fr' < nat (nframes s)"
  shows "slice_time s sl fr \<le> slice_time s sl fr'"
proof -
  from slice_time_bounds [OF assms(1,2)] obtain cur st where
    b: "\<forall>k < nat (nframes s). st ! k = slice_offset s cur + real k * val (tr s) \<and>
               slice_time s sl k = st ! k" by blast
  have "0 < val (tr s)" using assms(1) by (simp add: timing_ok_def)
  then have "real fr * val (tr s) \<le> real fr' * val (tr s)"
    using assms(3) by (intro mult_right_mono) simp_all
  with b assms(3,4) show ?thesis by simp
qed

text \<open>
  C5. Under the timing hypotheses, with a \<open>slice_order\<close> that covers the slices and a
  filter that preserves the length, the call stores a phase tensor (also when it raises
  later, in the RVHR loop) in which every cardiac phase lies in \<open>[0, 2\<pi>]\<close>, whether or
  not there is any trigger: the trigger window \<open>(t1, t2)\<close> of a slice time is never
  degenerate. With no trigger at all, the cardiac phase of frame \<open>fr\<close> is
  \<open>2\<pi> t / (nframes * tr)\<close> (that is, \<open>t1 = 0\<close> and \<open>t2 = nframes * tr\<close>) and does not
  decrease with the frame index.
\<close>

theorem cardiac_phase_range:
  assumes "timing_ok s" "covers_slices s" "filter_ok filt s"
  shows "\<exists>P. phases (snd (compute_regressors filt s)) = Some P \<and>
           (\<forall>sl < length (slice_order s). \<forall>fr < nat (nframes s).
               0 \<le> fst (P sl fr) \<and> fst (P sl fr) \<le> 2 * pi) \<and>
           (card_trig s = [] \<longrightarrow>
              (\<forall>sl < length (slice_order s). \<forall>fr < nat (nframes s).
                  fst (P sl fr) = slice_time s sl fr * 2 * pi / (of_int (nframes s) * val (tr s)) \<and>
                  (\<forall>fr' < nat (nframes s). fr \<le> fr' \<longrightarrow> fst (P sl fr) \<le> fst (P sl fr'))))"
proof -
  from phases_after [OF assms] obtain P where
    P: "phases (snd (compute_regressors filt s)) = Some P"
    and v: "\<And>sl fr. sl < length (slice_order s) \<Longrightarrow> fr < nat (nframes s) \<Longrightarrow>
               fst (P sl fr) = cardiac_phase_at s (slice_time s sl fr)"
    by fastforce
  have cov: "\<And>sl. sl < length (slice_order s) \<Longrightarrow> int sl \<in> set (slice_order s)"
    using assms(2) by (simp add: covers_slices_def)
  have range: "\<forall>sl < length (slice_order s). \<forall>fr < nat (nframes s).
               0 \<le> fst (P sl fr) \<and> fst (P sl fr) \<le> 2 * pi"
    using v cardiac_phase_at_bounds [OF assms(1)] cov by simp
  have pos: "0 < of_int (nframes s) * val (tr s)"
    using assms(1) by (simp add: timing_ok_def)
  have mono: "\<forall>sl < length (slice_order s). \<forall>fr < nat (nframes s).
                  fst (P sl fr) = slice_time s sl fr * 2 * pi / (of_int (nframes s) * val (tr s)) \<and>
                  (\<forall>fr' < nat (nframes s). fr \<le> fr' \<longrightarrow> fst (P sl fr) \<le> fst (P sl fr'))"
    if e: "card_trig s = []"
  proof (intro allI impI conjI)
    fix sl fr assume sl: "sl < length (slice_order s)" and fr: "fr < nat (nframes s)"
    show f: "fst (P sl fr) = slice_time s sl fr * 2 * pi / (of_int (nframes s) * val (tr s))"
      using v [OF sl fr] e by (simp add: cardiac_phase_at_def phi_cardiac_no_trigger)
    fix fr' assume fr': "fr' < nat (nframes s)" and le: "fr \<le> fr'"
    have "fst (P sl fr') = slice_time s sl fr' * 2 * pi / (of_int (nframes s) * val (tr s))"
      using v [OF sl fr'] e by (simp add: cardiac_phase_at_def phi_cardiac_no_trigger)
    moreover have "slice_time s sl fr \<le> slice_time s sl fr'"
      using slice_time_mono [OF assms(1) cov [OF sl] le fr'] .
    ultimately show "fst (P sl fr) \<le> fst (P sl fr')"
      using f pos by (simp add: divide_right_mono mult_right_mono)
  qed
  from P range mono show ?thesis by blast
qed

lemma boundary_scan_ok:
  "timing_ok boundary_scan" "covers_slices boundary_scan" "filter_ok no_filter boundary_scan"
  "timing_ok no_trigger_scan" "covers_slices no_trigger_scan" "filter_ok no_filter no_trigger_scan"
  by (simp_all add: boundary_scan_def no_trigger_scan_def timing_ok_def covers_slices_def
        filter_ok_def no_filter_def val_def)

lemma no_trigger_slice_time:
  "slice_time no_trigger_scan 0 0 = 1" "slice_time no_trigger_scan 0 (Suc 0) = 3"
  "slice_time no_trigger_scan 0 2 = 5"
  "slice_time boundary_scan 0 0 = 1" "slice_time boundary_scan 0 (Suc 0) = 3"
  "slice_time boundary_scan 0 2 = 5"
  by (simp_all add: slice_time_def slice_times_of_def no_trigger_scan_def boundary_scan_def
        first_index_def arange_def py2_div_def val_def upt_rec)

theorem cardiac_phase_range_witness:
  "timing_ok no_trigger_scan \<and> covers_slices no_trigger_scan \<and>
   filter_ok no_filter no_trigger_scan \<and> card_trig no_trigger_scan = [] \<and>
   (\<exists>P. phases (snd (compute_regressors no_filter no_trigger_scan)) = Some P \<and>
        fst (P 0 0) = pi / 3 \<and> fst (P 0 1) = pi \<and> fst (P 0 2) = 5 * pi / 3 \<and>
        0 \<le> fst (P 0 0) \<and> fst (P 0 2) \<le> 2 * pi)"
proof -
  have e: "card_trig no_trigger_scan = []" by (simp add: no_trigger_scan_def)
  have n: "length (slice_order no_trigger_scan) = 1" "nat (nframes no_trigger_scan) = 3"
    "of_int (nframes no_trigger_scan) * val (tr no_trigger_scan) = 6"
    by (simp_all add: no_trigger_scan_def boundary_scan_def val_def)
  from cardiac_phase_range [OF boundary_scan_ok(4,5,6)] obtain P where
    P: "phases (snd (compute_regressors no_filter no_trigger_scan)) = Some P"
       "\<forall>sl < length (slice_order no_trigger_scan). \<forall>fr < nat (nframes no_trigger_scan).
               0 \<le> fst (P sl fr) \<and> fst (P sl fr) \<le> 2 * pi"
       "\<forall>sl < length (slice_order no_trigger_scan). \<forall>fr < nat (nframes no_trigger_scan).
           fst (P sl fr) = slice_time no_trigger_scan sl fr * 2 * pi /
               (of_int (nframes no_trigger_scan) * val (tr no_trigger_scan))"
    using e by auto
  have "fst (P 0 0) = pi / 3" "fst (P 0 1) = pi" "fst (P 0 2) = 5 * pi / 3"
    using P(3) [rule_format, of 0 0] P(3) [rule_format, of 0 1] P(3) [rule_format, of 0 2] n
    by (simp_all add: no_trigger_slice_time)
  moreover have "0 \<le> fst (P 0 0)" "fst (P 0 2) \<le> 2 * pi" using P(2) n by simp_all
  ultimately show ?thesis using P(1) e boundary_scan_ok by blast
qed

subsection \<open>Respiratory phase\<close>

text \<open>
  C10. Under the same hypotheses every respiratory phase of the stored tensor is
  \<open>\<pi> * sign(drdt[i]) * (partial histogram count) / (total sample count)\<close> with the partial
  count at most the total count; it lies in \<open>[-\<pi>, \<pi>]\<close>, and it is 0 when the filtered
  derivative at the selected sample is 0.
\<close>

theorem resp_phase_range:
  assumes "timing_ok s" "covers_slices s" "filter_ok filt s"
  shows "\<exists>P respfilt.
           phases (snd (compute_regressors filt s)) = Some P \<and>
           filt (resp_dt s) (zero_min (resp_wave s)) = Some respfilt \<and>
           (\<forall>sl < length (slice_order s). \<forall>fr < nat (nframes s).
              (\<exists>k. sum_list (take k (fst (histogram (zero_min (resp_wave s)) 100))) \<le> length respfilt \<and>
                   snd (P sl fr) =
                     pi * sgn (np_diff respfilt !
                                 nat (iphys_of (resp_dt s) (np_diff respfilt) (slice_time s sl fr))) *
                     (real (sum_list (take k (fst (histogram (zero_min (resp_wave s)) 100))))
                        / real (length respfilt))) \<and>
              - pi \<le> snd (P sl fr) \<and> snd (P sl fr) \<le> pi \<and>
              (np_diff respfilt ! nat (iphys_of (resp_dt s) (np_diff respfilt) (slice_time s sl fr)) = 0
                 \<longrightarrow> snd (P sl fr) = 0))"
proof -
  let ?Hb = "fst (histogram (zero_min (resp_wave s)) 100)"
  let ?bins = "snd (histogram (zero_min (resp_wave s)) 100)"
  from phases_after [OF assms] obtain P respfilt where
    rf: "filt (resp_dt s) (zero_min (resp_wave s)) = Some respfilt"
        "resp_ok (shifted s) ?Hb ?bins respfilt"
    and P: "phases (snd (compute_regressors filt s)) = Some P"
    and v: "\<And>sl fr. sl < length (slice_order s) \<Longrightarrow> fr < nat (nframes s) \<Longrightarrow>
               snd (P sl fr) = resp_phase_at (shifted s) ?Hb ?bins respfilt (slice_time s sl fr)"
    by fastforce
  show ?thesis
    using P rf(1) v resp_phase_at_bounds [OF rf(2)]
    by (intro exI [of _ P] exI [of _ respfilt]) (simp add: shifted_simps)
qed

theorem resp_phase_range_witness:
  "timing_ok boundary_scan \<and> covers_slices boundary_scan \<and> filter_ok no_filter boundary_scan \<and>
   (\<exists>P. phases (snd (compute_regressors no_filter boundary_scan)) = Some P \<and>
        snd (P 0 0) = 0 \<and> - pi \<le> snd (P 0 1) \<and> snd (P 0 1) \<le> pi)"
proof -
  have n: "length (slice_order boundary_scan) = 1" "nat (nframes boundary_scan) = 3"
    by (simp_all add: boundary_scan_def)
  have z: "zero_min (resp_wave boundary_scan) = [0, 1, 2, 1, 0, 0, 2, 1]"
    by (simp add: boundary_scan_def zero_min_def)
  from resp_phase_range [OF boundary_scan_ok(1,2,3)] obtain P respfilt where
    P: "phases (snd (compute_regressors no_filter boundary_scan)) = Some P"
    and rf: "no_filter (resp_dt boundary_scan) (zero_min (resp_wave boundary_scan)) = Some respfilt"
    and b: "\<forall>sl < length (slice_order boundary_scan). \<forall>fr < nat (nframes boundary_scan).
              - pi \<le> snd (P sl fr) \<and> snd (P sl fr) \<le> pi \<and>
              (np_diff respfilt ! nat (iphys_of (resp_dt boundary_scan) (np_diff respfilt)
                   (slice_time boundary_scan sl fr)) = 0 \<longrightarrow> snd (P sl fr) = 0)"
    by blast
  have r: "respfilt = [0, 1, 2, 1, 0, 0, 2, 1]" using rf z by (simp add: no_filter_def)
  have dt: "resp_dt boundary_scan = 1 / 4" by (simp add: boundary_scan_def)
  have d: "np_diff respfilt ! nat (iphys_of (resp_dt boundary_scan) (np_diff respfilt)
                   (slice_time boundary_scan 0 0)) = 0"
    by (simp add: r dt no_trigger_slice_time np_diff_def iphys_of_def np_round_def upt_rec)
  have "snd (P 0 0) = 0" using b [rule_format, of 0 0] n d by simp
  moreover have "- pi \<le> snd (P 0 1) \<and> snd (P 0 1) \<le> pi" using b [rule_format, of 0 1] n by simp
  ultimately show ?thesis using P boundary_scan_ok by blast
qed

subsection \<open>Slice times and slice order\<close>

lemma covers_slices_permutation:
  "covers_slices s \<longleftrightarrow>
     distinct (slice_order s) \<and> set (slice_order s) = int ` {0..<length (slice_order s)}"
proof
  assume c: "covers_slices s"
  let ?xs = "slice_order s" and ?n = "length (slice_order s)"
  have sub: "int ` {0..<?n} \<subseteq> set ?xs" using c by (auto simp: covers_slices_def)
  have cd: "card (int ` {0..<?n}) = ?n" by (simp add: card_image)
  have "card (int ` {0..<?n}) \<le> card (set ?xs)" using sub by (intro card_mono) simp_all
  with cd have ge: "?n \<le> card (set ?xs)" by simp
  moreover have "card (set ?xs) \<le> ?n" by (rule card_length)
  ultimately have eq: "card (set ?xs) = ?n" by simp
  then have "distinct ?xs" by (rule card_distinct)
  moreover have "int ` {0..<?n} = set ?xs"
    using sub eq cd by (intro card_subset_eq) simp_all
  ultimately show "distinct ?xs \<and> set ?xs = int ` {0..<?n}" by simp
next
  assume "distinct (slice_order s) \<and> set (slice_order s) = int ` {0..<length (slice_order s)}"
  then show "covers_slices s" by (auto simp: covers_slices_def)
qed




lemma for_each_stops:
  assumes "for_each xs body st = (None, a)" "body y a = (Some e, b)"
  shows "for_each (xs @ y # ys) body st = (Some e, b)"
  using assms by (simp add: for_each_append)

lemma phase_stage_missing_slice:
  assumes "resp_ok s Hb bins respfilt" "timing_ok s" "\<not> covers_slices s"
  shows "fst (phase_stage s Hb bins respfilt (np_diff respfilt)) = Some IndexError"
proof -
  let ?n = "length (slice_order s)"
  let ?miss = "\<lambda>sl. sl < ?n \<and> int sl \<notin> set (slice_order s)"
  from assms(3) have ex: "\<exists>sl. ?miss sl" by (auto simp: covers_slices_def)
  define m where "m = (LEAST sl. ?miss sl)"
  have m: "?miss m" unfolding m_def using ex by (rule LeastI_ex)
  have before: "\<And>sl. sl < m \<Longrightarrow> int sl \<in> set (slice_order s)"
  proof (rule ccontr)
    fix sl assume "sl < m" "int sl \<notin> set (slice_order s)"
    then have "?miss sl" using m by simp
    then have "m \<le> sl" unfolding m_def by (rule Least_le)
    with \<open>sl < m\<close> show False by simp
  qed
  let ?body = "phase_slice s Hb bins respfilt (np_diff respfilt)"
  have "\<exists>a. for_each [0..<m] ?body (True, \<lambda>_ _. (0, 0)) = (None, a) \<and> True"
  proof (rule for_each_upt_total [where I = "\<lambda>_ _. True"])
    fix k and a :: "bool \<times> phase_tensor" assume k: "k < m"
    obtain ok P where a: "a = (ok, P)" by (cases a)
    from phase_slice_ok [OF assms(1,2) before [OF k], of ok P] a
    show "\<exists>b. ?body k a = (None, b) \<and> True" by auto
  qed simp
  then obtain a where a: "for_each [0..<m] ?body (True, \<lambda>_ _. (0, 0)) = (None, a)" by blast
  have "slice_times_of s m = Inl IndexError"
    using m first_index_missing [of "int m" "slice_order s"] by (simp add: slice_times_of_def)
  then have b: "?body m a = (Some IndexError, a)" by (simp add: phase_slice_def)
  have "[0..<m] @ [m..<?n] = [0..<?n]" using m upt_add_eq_append [of 0 m "?n - m"] by simp
  moreover have "[m..<?n] = m # [Suc m..<?n]" using m by (simp add: upt_conv_Cons)
  ultimately have "[0..<?n] = [0..<m] @ m # [Suc m..<?n]" by simp
  then have "phase_stage s Hb bins respfilt (np_diff respfilt) = (Some IndexError, a)"
    using for_each_stops [OF a b] by (simp add: phase_stage_def)
  then show ?thesis by simp
qed

lemma non_permutation_raises:
  assumes "timing_ok s" "filter_ok filt s" "\<not> covers_slices s"
  shows "fst (compute_regressors filt s) = Some IndexError"
proof -
  let ?Hb = "fst (histogram (zero_min (resp_wave s)) 100)"
  let ?bins = "snd (histogram (zero_min (resp_wave s)) 100)"
  have n3: "3 \<le> nframes s" using assms(1) by (simp add: timing_ok_def)
  from compute_regressors_reaches [OF n3 assms(2)] obtain respfilt where
    rf: "resp_ok (shifted s) ?Hb ?bins respfilt"
        "compute_regressors filt s = regressors_from (shifted s) ?Hb ?bins respfilt" by blast
  have "fst (phase_stage (shifted s) ?Hb ?bins respfilt (np_diff respfilt)) = Some IndexError"
    using phase_stage_missing_slice [OF rf(1)] assms(1,3) by (simp add: shifted_simps)
  then have "fst (regressors_from (shifted s) ?Hb ?bins respfilt) = Some IndexError"
    by (auto simp: regressors_from_def Let_def split: prod.splits option.splits)
  with rf(2) show ?thesis by simp
qed

lemma dup_order_scan_facts:
  "timing_ok dup_order_scan" "filter_ok no_filter dup_order_scan" "\<not> covers_slices dup_order_scan"
  "slice_order dup_order_scan = [0, 0]"
  by (simp_all add: dup_order_scan_def boundary_scan_def timing_ok_def filter_ok_def
        covers_slices_def no_filter_def val_def less_Suc_eq)

text \<open>
  C2, as the claim states it, fails: with \<open>slice_order = [0, 0]\<close> (slice 0 twice, slice 1
  missing) the lookup for slice 0 takes the first of the two positions without complaint,
  and the call ends in the IndexError of the lookup for slice 1, not in an error of the
  module's own type.
\<close>

theorem duplicate_slice_index_error:
  "slice_order dup_order_scan = [0, 0] \<and>
   first_index (slice_order dup_order_scan) 0 = Inr 0 \<and>
   fst (compute_regressors no_filter dup_order_scan) = Some IndexError \<and>
   (\<forall>msg. fst (compute_regressors no_filter dup_order_scan) \<noteq> Some (NIMSPhysioError msg))"
  using non_permutation_raises [OF dup_order_scan_facts(1,2,3)]
  by (simp add: dup_order_scan_facts(4) first_index_def upt_rec)

text \<open>
  C2, amended. For every input that reaches the loops (timing hypotheses, a filter that
  preserves the length) and whose \<open>slice_order\<close> is not a permutation of \<open>[0, nslices)\<close>,
  the call raises the IndexError of the position lookup (lines 237).
\<close>

theorem non_permutation_index_error:
  assumes "timing_ok s" "filter_ok filt s"
      and "\<not> (distinct (slice_order s) \<and>
              set (slice_order s) = int ` {0..<length (slice_order s)})"
  shows "fst (compute_regressors filt s) = Some IndexError"
  using non_permutation_raises [OF assms(1,2)] assms(3) by (simp add: covers_slices_permutation)

theorem non_permutation_index_error_witness:
  "timing_ok dup_order_scan \<and> filter_ok no_filter dup_order_scan \<and>
   \<not> (distinct (slice_order dup_order_scan) \<and>
      set (slice_order dup_order_scan) = int ` {0..<length (slice_order dup_order_scan)}) \<and>
   fst (compute_regressors no_filter dup_order_scan) = Some IndexError"
proof -
  have d: "\<not> (distinct (slice_order dup_order_scan) \<and>
      set (slice_order dup_order_scan) = int ` {0..<length (slice_order dup_order_scan)})"
    by (simp add: dup_order_scan_facts(4))
  from non_permutation_index_error [OF dup_order_scan_facts(1,2) d] d dup_order_scan_facts
  show ?thesis by simp
qed

subsection \<open>The RVHR loop: when it raises\<close>


lemma rv_frame_state:
  assumes "rv_frame s st tp (ok, rv) = (None, b)"
  shows "length (snd b) = length rv \<and>
         fst b = (ok \<and> fst (rv_window s (st ! tp)) < snd (rv_window s (st ! tp)))"
  using assms
  by (auto simp: rv_frame_def getitem_def split: sum.splits prod.splits if_splits)




















end
